theory Spec2Isabelle
  imports Main "HOL-Library.AList" "HOL-Library.Sublist"
begin

section \<open>Python values, dictionaries and exceptions\<close>

text \<open>
  The notebook \<^verbatim>\<open>Geocoding addresses DONE.ipynb\<close> is a Python 2.7 script. Its rows are
  dictionaries built by \<^verbatim>\<open>csv.DictReader\<close>: the keys are column names, or \<^verbatim>\<open>None\<close>
  (the default \<^verbatim>\<open>restkey\<close>), and the values are byte strings, \<^verbatim>\<open>None\<close> (the default
  \<^verbatim>\<open>restval\<close>), a list of strings (under \<^verbatim>\<open>restkey\<close>) or, after enrichment, a float.
  Floats are carried opaquely in the type parameter \<open>'f\<close>: no arithmetic is done on them.
\<close>

datatype pykey = K string | KNone

datatype 'f pyval = Str string | PyNone | Flt 'f | StrList "string list"

datatype exn =
    StopIteration
  | IOError
  | KeyError pykey
  | TypeError
  | AttributeError
  | ValueError
  | GeocoderError string

text \<open>A dictionary is an association list with distinct keys, updated in place.\<close>

type_synonym 'f dict = "(pykey \<times> 'f pyval) list"

definition setitem :: "pykey \<Rightarrow> 'f pyval \<Rightarrow> 'f dict \<Rightarrow> 'f dict" where
  "setitem k v d = AList.update k v d"

text \<open>\<^verbatim>\<open>d[k]\<close> raises \<^verbatim>\<open>KeyError\<close> on a missing key.\<close>

definition getitem :: "'f dict \<Rightarrow> string \<Rightarrow> exn + 'f pyval" where
  "getitem d k = (case map_of d (K k) of None \<Rightarrow> Inl (KeyError (K k)) | Some v \<Rightarrow> Inr v)"

text \<open>\<^verbatim>\<open>d.get(k, default)\<close>.\<close>

definition get_default :: "'f dict \<Rightarrow> pykey \<Rightarrow> 'f pyval \<Rightarrow> 'f pyval" where
  "get_default d k dflt = (case map_of d k of None \<Rightarrow> dflt | Some v \<Rightarrow> v)"

text \<open>\<^verbatim>\<open>dict(pairs)\<close>: a later pair overrides an earlier one with the same key.\<close>

definition dict_of :: "(pykey \<times> 'f pyval) list \<Rightarrow> 'f dict" where
  "dict_of ps = fold (\<lambda>(k, v) d. setitem k v d) ps []"

text \<open>An exception propagates through the rest of an expression or statement list.\<close>

definition and_then :: "exn + 'a \<Rightarrow> ('a \<Rightarrow> exn + 'b) \<Rightarrow> exn + 'b" where
  "and_then m f = (case m of Inl e \<Rightarrow> Inl e | Inr x \<Rightarrow> f x)"

text \<open>
  \<^verbatim>\<open>v + 'text'\<close> and \<^verbatim>\<open>'text' + v\<close> where one operand is known to be a string: anything but
  a string on the other side raises \<^verbatim>\<open>TypeError\<close>.
\<close>

definition add_str :: "'f pyval \<Rightarrow> string \<Rightarrow> exn + string" where
  "add_str v s = (case v of Str a \<Rightarrow> Inr (a @ s) | _ \<Rightarrow> Inl TypeError)"

definition str_add :: "string \<Rightarrow> 'f pyval \<Rightarrow> exn + string" where
  "str_add s v = (case v of Str b \<Rightarrow> Inr (s @ b) | _ \<Rightarrow> Inl TypeError)"

text \<open>
  \<^verbatim>\<open>str.strip()\<close> without argument on a Python 2 byte string removes leading and trailing
  whitespace: space, tab, line feed, vertical tab, form feed, carriage return.
\<close>

definition isspace :: "char \<Rightarrow> bool" where
  "isspace c = (c \<in> set [CHR '' '', CHR 0x09, CHR 0x0A, CHR 0x0B, CHR 0x0C, CHR 0x0D])"

definition strip :: "string \<Rightarrow> string" where
  "strip s = rev (dropWhile isspace (rev (dropWhile isspace s)))"

text \<open>\<^verbatim>\<open>'{0}'.format(n)\<close> for a non-negative integer: its decimal digits.\<close>

fun str_nat :: "nat \<Rightarrow> string" where
  "str_nat n =
     (if n < 10 then [''0123456789'' ! n]
      else str_nat (n div 10) @ [''0123456789'' ! (n mod 10)])"

declare str_nat.simps [simp del]

section \<open>Address assembly (cell 11, line 164)\<close>

text \<open>
  \<^verbatim>\<open>addr = (row['STADDR']+' '+row['STADDR2']).strip()+', '+row['CITY']+', '+row['STATE']+' '+row['ZIP']\<close>
  evaluated left to right: each lookup may raise \<^verbatim>\<open>KeyError\<close>, each concatenation
  \<^verbatim>\<open>TypeError\<close>.
\<close>

definition addr :: "'f dict \<Rightarrow> exn + string" where
  "addr row =
     and_then (getitem row ''STADDR'') (\<lambda>a.
     and_then (add_str a '' '') (\<lambda>s1.
     and_then (getitem row ''STADDR2'') (\<lambda>b.
     and_then (str_add s1 b) (\<lambda>s2.
     and_then (getitem row ''CITY'') (\<lambda>c.
     and_then (str_add (strip s2 @ '', '') c) (\<lambda>s3.
     and_then (getitem row ''STATE'') (\<lambda>st.
     and_then (str_add (s3 @ '', '') st) (\<lambda>s4.
     and_then (getitem row ''ZIP'') (\<lambda>z.
     str_add (s4 @ '' '') z)))))))))"

section \<open>The csv module's reader (cell 5)\<close>

text \<open>
  \<^verbatim>\<open>csv.reader\<close> is an iterator over parsed rows. Parsing bytes into fields is the
  library's, so an open file is given here as what the parser yields: for each row, the
  number of physical lines it spans (a quoted field may contain line breaks) and its
  fields; a blank line is a row with no field. \<^verbatim>\<open>line_num\<close> counts the physical lines
  read so far. \<^verbatim>\<open>next\<close> returns \<open>None\<close> where Python raises \<^verbatim>\<open>StopIteration\<close>.
\<close>

type_synonym raw_row = "nat \<times> string list"

record csv_reader =
  pending :: "raw_row list"
  rd_line_num :: nat

definition reader_next :: "csv_reader \<Rightarrow> (string list \<times> csv_reader) option" where
  "reader_next r =
     (case pending r of
        [] \<Rightarrow> None
      | (n, cells) # rest \<Rightarrow> Some (cells, \<lparr>pending = rest, rd_line_num = rd_line_num r + n\<rparr>))"

text \<open>
  \<^verbatim>\<open>csv.DictReader\<close> of Python 2.7 (\<^verbatim>\<open>Lib/csv.py\<close>), with the defaults the notebook
  uses: \<^verbatim>\<open>fieldnames=None, restkey=None, restval=None\<close>.
\<close>

record dict_reader =
  dr_fieldnames :: "string list option"
  dr_reader :: csv_reader
  dr_line_num :: nat

definition DictReader :: "raw_row list \<Rightarrow> dict_reader" where
  "DictReader f =
     \<lparr>dr_fieldnames = None, dr_reader = \<lparr>pending = f, rd_line_num = 0\<rparr>, dr_line_num = 0\<rparr>"

text \<open>
  The \<^verbatim>\<open>fieldnames\<close> property: on first use it reads the header row (an exhausted file
  leaves it \<^verbatim>\<open>None\<close>), and on every use it copies the reader's line number.
\<close>

definition fieldnames :: "dict_reader \<Rightarrow> string list option \<times> dict_reader" where
  "fieldnames d =
     (let d1 = (case dr_fieldnames d of
                  Some _ \<Rightarrow> d
                | None \<Rightarrow>
                    (case reader_next (dr_reader d) of
                       None \<Rightarrow> d
                     | Some (row, r) \<Rightarrow> d\<lparr>dr_fieldnames := Some row, dr_reader := r\<rparr>));
          d2 = d1\<lparr>dr_line_num := rd_line_num (dr_reader d1)\<rparr>
      in (dr_fieldnames d2, d2))"

text \<open>\<^verbatim>\<open>while row == []: row = self.reader.next()\<close>; \<open>None\<close> is \<^verbatim>\<open>StopIteration\<close>.\<close>

function skip_blank :: "string list \<Rightarrow> csv_reader \<Rightarrow> string list option \<times> csv_reader" where
  "skip_blank row r =
     (if row = [] then
        (case reader_next r of
           None \<Rightarrow> (None, r)
         | Some (row', r') \<Rightarrow> skip_blank row' r')
      else (Some row, r))"
  by pat_completeness auto
termination
  by (relation "measure (\<lambda>(row, r). length (pending r))")
     (auto simp: reader_next_def split: list.splits)

declare skip_blank.simps [simp del]

text \<open>
  The dictionary of one row: \<^verbatim>\<open>dict(zip(fieldnames, row))\<close>, then the surplus fields of
  a long row as a list under \<^verbatim>\<open>restkey\<close>, or \<^verbatim>\<open>restval\<close> for each column a short row
  lacks.
\<close>

definition row_dict :: "string list \<Rightarrow> string list \<Rightarrow> 'f dict" where
  "row_dict fns row =
     (let d = dict_of (zip (map K fns) (map Str row));
          lf = length fns;
          lr = length row
      in if lf < lr then setitem KNone (StrList (drop lf row)) d
         else if lf > lr then fold (\<lambda>key. setitem (K key) PyNone) (drop lr fns) d
         else d)"

text \<open>
  \<^verbatim>\<open>DictReader.next\<close>, in two steps. \<open>next_row\<close> is the method up to the point where the
  row and the field names are known: the result is the pair of them, or the exception
  raised, together with the reader as the call leaves it. \<^verbatim>\<open>zip(None, row)\<close> is a
  \<^verbatim>\<open>TypeError\<close>. \<open>dict_next\<close> then builds the dictionary.
\<close>

definition next_row :: "dict_reader \<Rightarrow> (exn + string list \<times> string list) \<times> dict_reader" where
  "next_row d =
     (let d1 = (if dr_line_num d = 0 then snd (fieldnames d) else d) in
      case reader_next (dr_reader d1) of
        None \<Rightarrow> (Inl StopIteration, d1)
      | Some (row0, r1) \<Rightarrow>
          let d2 = d1\<lparr>dr_reader := r1, dr_line_num := rd_line_num r1\<rparr> in
          (case skip_blank row0 r1 of
             (None, r2) \<Rightarrow> (Inl StopIteration, d2\<lparr>dr_reader := r2\<rparr>)
           | (Some row, r2) \<Rightarrow>
               (case fieldnames (d2\<lparr>dr_reader := r2\<rparr>) of
                  (None, d3) \<Rightarrow> (Inl TypeError, d3)
                | (Some fns, d3) \<Rightarrow> (Inr (fns, row), d3))))"

definition dict_next :: "dict_reader \<Rightarrow> (exn + 'f dict) \<times> dict_reader" where
  "dict_next d =
     (case next_row d of
        (Inl e, d') \<Rightarrow> (Inl e, d')
      | (Inr (fns, row), d') \<Rightarrow> (Inr (row_dict fns row), d'))"

section \<open>The csv module's writer (cell 9)\<close>

definition output_fields :: "string list" where
  "output_fields =
     [''NAME'', ''DBA'', ''STADDR'', ''STADDR2'', ''CITY'', ''STATE'', ''ZIP'',
      ''MATCH_ADDR'', ''LAT_Y'', ''LONG_X'']"

text \<open>
  \<^verbatim>\<open>csv.DictWriter\<close> with the defaults \<^verbatim>\<open>restval='', extrasaction='raise'\<close>:
  \<^verbatim>\<open>_dict_to_list\<close> raises \<^verbatim>\<open>ValueError\<close> when the dictionary has a key that is not a
  field name, and fills a missing field with \<^verbatim>\<open>restval\<close>. The cells go to the underlying
  writer, which renders \<^verbatim>\<open>None\<close> as the empty string; rendering and quoting are the
  library's and a written line is kept as its list of cells.
\<close>

definition dict_to_list :: "string list \<Rightarrow> 'f dict \<Rightarrow> exn + 'f pyval list" where
  "dict_to_list fns rowdict =
     (let wrong_fields = filter (\<lambda>k. k \<notin> set (map K fns)) (map fst rowdict)
      in if wrong_fields \<noteq> [] then Inl ValueError
         else Inr (map (\<lambda>key. get_default rowdict (K key) (Str [])) fns))"

definition writerow :: "string list \<Rightarrow> 'f dict \<Rightarrow> exn + 'f pyval list" where
  "writerow fns rowdict = dict_to_list fns rowdict"

definition writeheader :: "string list \<Rightarrow> exn + 'f pyval list" where
  "writeheader fns = writerow fns (dict_of (zip (map K fns) (map Str fns)))"

section \<open>The geocoding provider\<close>

text \<open>
  \<^verbatim>\<open>geolocator.geocode(addr)\<close> returns a location, returns \<^verbatim>\<open>None\<close> when nothing
  matches, or raises. The provider is outside the program: it is a parameter, a function
  of the number of calls made before and of the query.
\<close>

record 'f location =
  address :: string
  latitude :: 'f
  longitude :: 'f

datatype 'f geocoded = Found "'f location" | NoMatch | Raises string

type_synonym 'f geocoder = "nat \<Rightarrow> string \<Rightarrow> 'f geocoded"

section \<open>The geocoding loop (cell 11)\<close>

text \<open>What the program does to the outside, in order.\<close>

datatype 'f event =
    Geocode string
  | WriteRow "'f pyval list"
  | Print string
  | Sleep nat
  | CloseFile string

text \<open>
  The body of the \<^verbatim>\<open>if\<close> branch for one row, \<open>i\<close> provider calls having been made and
  \<open>line_num\<close> being the reader's line number. Reading \<^verbatim>\<open>location.latitude\<close> of \<^verbatim>\<open>None\<close>
  raises \<^verbatim>\<open>AttributeError\<close>. The result is the exception raised, if any, and the events
  up to it.
\<close>

definition body :: "'f geocoder \<Rightarrow> nat \<Rightarrow> nat \<Rightarrow> 'f dict \<Rightarrow> exn option \<times> 'f event list" where
  "body geolocator i line_num row =
     (case addr row of
        Inl e \<Rightarrow> (Some e, [])
      | Inr a \<Rightarrow>
          (case geolocator i a of
             Raises msg \<Rightarrow> (Some (GeocoderError msg), [Geocode a])
           | NoMatch \<Rightarrow> (Some AttributeError, [Geocode a])
           | Found location \<Rightarrow>
               let row1 = setitem (K ''LAT_Y'') (Flt (latitude location)) row;
                   row2 = setitem (K ''LONG_X'') (Flt (longitude location)) row1;
                   row3 = setitem (K ''MATCH_ADDR'') (Str (address location)) row2
               in (case writerow output_fields row3 of
                     Inl e \<Rightarrow> (Some e, [Geocode a])
                   | Inr cells \<Rightarrow>
                       (None,
                        [Geocode a,
                         WriteRow cells,
                         Print (''Attempted geocode of '' @ a @ '', row '' @ str_nat line_num @ ''.''),
                         Sleep 2]))))"

text \<open>
  \<^verbatim>\<open>for row in input_file\<close>: each turn calls \<^verbatim>\<open>input_file.next()\<close>, and
  \<^verbatim>\<open>StopIteration\<close> ends the loop. The result is the uncaught exception, if any, the
  events, and the reader as the loop leaves it.
\<close>

function loop :: "'f geocoder \<Rightarrow> nat \<Rightarrow> dict_reader \<Rightarrow> exn option \<times> 'f event list \<times> dict_reader" where
  "loop geolocator i input_file =
     (case dict_next input_file of
        (Inl StopIteration, d) \<Rightarrow> (None, [], d)
      | (Inl e, d) \<Rightarrow> (Some e, [], d)
      | (Inr row, d) \<Rightarrow>
          if dr_line_num d \<le> 6 then
            (case body geolocator i (dr_line_num d) row of
               (Some e, evs) \<Rightarrow> (Some e, evs, d)
             | (None, evs) \<Rightarrow>
                 (case loop geolocator (Suc i) d of
                    (r, evs', d') \<Rightarrow> (r, evs @ evs', d')))
          else (None, [Print ''All done!''], d))"
  by pat_completeness auto
termination
proof -
  have skip: "length (pending r') \<le> length (pending r)"
    if "skip_blank row r = (x, r')" for row r x r'
    using that
  proof (induction row r rule: skip_blank.induct)
    case (1 row r)
    note eq = skip_blank.simps [of row r]
    show ?case
    proof (cases "row = []")
      case False
      with "1.prems" eq show ?thesis by simp
    next
      case True
      show ?thesis
      proof (cases "reader_next r")
        case None
        with True "1.prems" eq show ?thesis by simp
      next
        case (Some p)
        obtain row' r1 where p: "p = (row', r1)" by (cases p)
        from Some p have "length (pending r1) \<le> length (pending r)"
          by (auto simp: reader_next_def split: list.splits)
        moreover from True Some p "1.prems" eq have "skip_blank row' r1 = (x, r')" by simp
        with "1.IH" True Some p have "length (pending r') \<le> length (pending r1)" by simp
        ultimately show ?thesis by simp
      qed
    qed
  qed
  have fns: "length (pending (dr_reader (snd (fieldnames d)))) \<le> length (pending (dr_reader d))"
    for d
    by (auto simp: fieldnames_def reader_next_def Let_def split: option.splits list.splits)
  have row: "length (pending (dr_reader d')) < length (pending (dr_reader d))"
    if nx: "next_row d = (Inr x, d')" for d d' x
  proof -
    define d1 where "d1 = (if dr_line_num d = 0 then snd (fieldnames d) else d)"
    have le1: "length (pending (dr_reader d1)) \<le> length (pending (dr_reader d))"
      unfolding d1_def using fns [of d] by simp
    show ?thesis
    proof (cases "reader_next (dr_reader d1)")
      case None
      with nx show ?thesis
        unfolding next_row_def d1_def [symmetric] by (simp add: Let_def)
    next
      case (Some p)
      obtain row0 r1 where p: "p = (row0, r1)" by (cases p)
      from Some p have lt: "length (pending r1) < length (pending (dr_reader d1))"
        by (auto simp: reader_next_def split: list.splits)
      obtain y r2 where sb: "skip_blank row0 r1 = (y, r2)" by (cases "skip_blank row0 r1")
      from skip [OF sb] have le2: "length (pending r2) \<le> length (pending r1)" .
      define d2 where "d2 = d1\<lparr>dr_line_num := rd_line_num r1, dr_reader := r2\<rparr>"
      have le3: "length (pending (dr_reader (snd (fieldnames d2)))) \<le> length (pending r2)"
        using fns [of d2] by (simp add: d2_def)
      from nx Some p sb have "d' = snd (fieldnames d2)"
        unfolding next_row_def d1_def [symmetric]
        by (auto simp: Let_def d2_def split: option.splits prod.splits)
      with le3 le2 lt le1 show ?thesis by simp
    qed
  qed
  have dict: "length (pending (dr_reader d')) < length (pending (dr_reader d))"
    if "(Inr r, d') = (dict_next d :: (exn + 'f dict) \<times> dict_reader)" for d d' r
    using that [symmetric] row [of d _ d']
    by (auto simp: dict_next_def split: prod.splits sum.splits)
  show ?thesis
    by (relation "measure (\<lambda>(g, i, d). length (pending (dr_reader d)))")
       (auto dest: dict)
qed

declare loop.simps [simp del]

section \<open>The notebook as a whole\<close>

text \<open>
  The files the notebook opens are the environment: \<open>contents\<close> gives the rows of a file
  that exists, \<open>creatable\<close> says whether a path can be opened for writing. In Python 2 a failed
  \<^verbatim>\<open>open\<close> raises \<^verbatim>\<open>IOError\<close>.
\<close>

record filesystem =
  contents :: "string \<Rightarrow> raw_row list option"
  creatable :: "string \<Rightarrow> bool"

definition open_rb :: "filesystem \<Rightarrow> string \<Rightarrow> exn + raw_row list" where
  "open_rb fs path = (case contents fs path of None \<Rightarrow> Inl IOError | Some f \<Rightarrow> Inr f)"

definition open_wb :: "filesystem \<Rightarrow> string \<Rightarrow> exn + unit" where
  "open_wb fs path = (if creatable fs path then Inr () else Inl IOError)"

text \<open>
  The cells in order; an uncaught exception ends the run, so the two \<^verbatim>\<open>close\<close> calls of
  the last cell are reached only when the loop ends normally. The result is the uncaught
  exception, if any, the events, and the reader as the run leaves it (if it was created).
\<close>

definition notebook ::
  "filesystem \<Rightarrow> 'f geocoder \<Rightarrow> exn option \<times> 'f event list \<times> dict_reader option" where
  "notebook fs geolocator =
     (case open_rb fs ''payday_lenders.csv'' of
        Inl e \<Rightarrow> (Some e, [], None)
      | Inr address_file \<Rightarrow>
          let input_file = DictReader address_file in
          (case open_wb fs ''payday_geocoded.csv'' of
             Inl e \<Rightarrow> (Some e, [], Some input_file)
           | Inr geocoded_file \<Rightarrow>
               (case writeheader output_fields of
                  Inl e \<Rightarrow> (Some e, [], Some input_file)
                | Inr header \<Rightarrow>
                    (case loop geolocator 0 input_file of
                       (Some e, evs, d) \<Rightarrow> (Some e, WriteRow header # evs, Some d)
                     | (None, evs, d) \<Rightarrow>
                         (None,
                          WriteRow header # evs @
                            [CloseFile ''payday_lenders.csv'', CloseFile ''payday_geocoded.csv''],
                          Some d)))))"

text \<open>The lines of the output file, the lines of the console and the provider's queries.\<close>

fun written :: "'f event list \<Rightarrow> 'f pyval list list" where
  "written [] = []"
| "written (WriteRow cells # es) = cells # written es"
| "written (_ # es) = written es"

fun printed :: "'f event list \<Rightarrow> string list" where
  "printed [] = []"
| "printed (Print line # es) = line # printed es"
| "printed (_ # es) = printed es"

fun queries :: "'f event list \<Rightarrow> string list" where
  "queries [] = []"
| "queries (Geocode q # es) = q # queries es"
| "queries (_ # es) = queries es"

section \<open>Vocabulary of the statements\<close>

text \<open>A string with no whitespace at either end.\<close>

definition trimmed :: "string \<Rightarrow> bool" where
  "trimmed s = (case s of [] \<Rightarrow> True | _ \<Rightarrow> \<not> isspace (hd s) \<and> \<not> isspace (last s))"

text \<open>
  A monitor for the pause between provider calls: \<open>due\<close> holds when a call was made and
  no pause of two seconds or more has followed it yet; a call made while a pause is due
  breaks the spacing.
\<close>

fun spaced :: "bool \<Rightarrow> 'f event list \<Rightarrow> bool" where
  "spaced due [] = True"
| "spaced due (Geocode q # es) = (\<not> due \<and> spaced True es)"
| "spaced due (Sleep n # es) = spaced (due \<and> n < 2) es"
| "spaced due (_ # es) = spaced due es"

text \<open>Every provider call is followed, somewhere later, by a pause of two seconds.\<close>

fun sleep_follows :: "'f event list \<Rightarrow> bool" where
  "sleep_follows [] = True"
| "sleep_follows (Geocode q # es) = (Sleep 2 \<in> set es \<and> sleep_follows es)"
| "sleep_follows (_ # es) = sleep_follows es"

text \<open>The reader after \<open>n\<close> calls of \<^verbatim>\<open>next\<close>.\<close>

primrec advance :: "nat \<Rightarrow> dict_reader \<Rightarrow> dict_reader" where
  "advance 0 d = d"
| "advance (Suc n) d = advance n (snd (next_row d))"

text \<open>The row after the three assignments of the loop body.\<close>

definition enriched :: "'f location \<Rightarrow> 'f dict \<Rightarrow> 'f dict" where
  "enriched location row =
     setitem (K ''MATCH_ADDR'') (Str (address location))
       (setitem (K ''LONG_X'') (Flt (longitude location))
         (setitem (K ''LAT_Y'') (Flt (latitude location)) row))"

text \<open>
  The reader once the header \<open>fns\<close> is read, with \<open>rows\<close> still to read and \<open>n\<close> physical
  lines read.
\<close>

definition reading :: "string list \<Rightarrow> raw_row list \<Rightarrow> nat \<Rightarrow> dict_reader" where
  "reading fns rows n =
     \<lparr>dr_fieldnames = Some fns, dr_reader = \<lparr>pending = rows, rd_line_num = n\<rparr>, dr_line_num = n\<rparr>"

text \<open>The answer of the provider to each call of a run, in order, the first call being call \<open>i\<close>.\<close>

definition answers :: "'f geocoder \<Rightarrow> nat \<Rightarrow> 'f event list \<Rightarrow> 'f geocoded list" where
  "answers geolocator i evs =
     map (\<lambda>(j, q). geolocator j q) (zip [i ..< i + length (queries evs)] (queries evs))"

text \<open>
  The shape of what the loop does: turns that complete, each a provider call, the write
  of the row, the progress line and a pause of two seconds, in this order; then nothing
  more, or one call alone (the turn it starts is not completed), or the completion
  message alone.
\<close>

fun turns :: "'f event list \<Rightarrow> bool" where
  "turns [] = True"
| "turns [Geocode q] = True"
| "turns [Print line] = (line = ''All done!'')"
| "turns (Geocode q # WriteRow cells # Print line # Sleep n # es) = (n = 2 \<and> turns es)"
| "turns _ = False"

text \<open>
  The output file is written through a buffered file object, and the notebook closes it
  in its last cell, in its own words so that everything is written to disk. \<open>on_disk\<close> is
  what a run has made sure is in the output file: the lines written, once the run has
  closed the file. Until then it has made sure of nothing: the lines are in the buffer of
  the file object and reach the file when the runtime flushes it.
\<close>

definition on_disk :: "'f event list \<Rightarrow> 'f pyval list list option" where
  "on_disk evs =
     (if CloseFile ''payday_geocoded.csv'' \<in> set evs then Some (written evs) else None)"

subsection \<open>Example inputs\<close>

text \<open>
  A directory that holds the input file with the given rows and nothing else, and where
  the output file can be created.
\<close>

definition input_only :: "raw_row list \<Rightarrow> filesystem" where
  "input_only rows =
     \<lparr>contents = (\<lambda>path. if path = ''payday_lenders.csv'' then Some rows else None),
      creatable = (\<lambda>path. path = ''payday_geocoded.csv'')\<rparr>"

definition lenders_header :: "string list" where
  "lenders_header = [''NAME'', ''DBA'', ''STADDR'', ''STADDR2'', ''CITY'', ''STATE'', ''ZIP'']"

definition potter_road :: "string list" where
  "potter_road =
     [''Acme'', ''Acme Loans'', ''8983 Potter Road'', [], ''Des Plaines'', ''IL'', ''60016'']"

text \<open>The input file with the header and \<open>n\<close> data rows, each on one line.\<close>

definition lenders :: "nat \<Rightarrow> filesystem" where
  "lenders n = input_only ((1, lenders_header) # replicate n (1, potter_road))"

text \<open>A header with the address columns first, and a row that lacks its last field.\<close>

definition address_first_header :: "string list" where
  "address_first_header = [''STADDR'', ''STADDR2'', ''CITY'', ''STATE'', ''ZIP'', ''NAME'', ''DBA'']"

definition short_row :: "string list" where
  "short_row = [''8983 Potter Road'', [], ''Des Plaines'', ''IL'', ''60016'', ''Acme'']"

text \<open>A provider that finds every query, and one that finds none.\<close>

definition finds_all :: "nat geocoder" where
  "finds_all i q = Found \<lparr>address = q, latitude = 42 + i, longitude = 87 + i\<rparr>"

definition finds_none :: "nat geocoder" where
  "finds_none i q = NoMatch"

text \<open>A provider that finds the first \<open>n\<close> queries and none after.\<close>

definition finds_first :: "nat \<Rightarrow> nat geocoder" where
  "finds_first n i q = (if i < n then finds_all i q else NoMatch)"

section \<open>The address query\<close>

lemma strip_snoc_space: "isspace c \<Longrightarrow> strip (s @ [c]) = strip s"
proof (cases "\<forall>x\<in>set s. isspace x")
  case True
  assume "isspace c"
  moreover from True have "dropWhile isspace s = []" by simp
  moreover from True \<open>isspace c\<close> have "dropWhile isspace (s @ [c]) = []"
    by (subst dropWhile_eq_Nil_conv) auto
  ultimately show ?thesis unfolding strip_def by (simp only:)
next
  case False
  assume "isspace c"
  from False obtain x where "x \<in> set s" "\<not> isspace x" by blast
  then have "dropWhile isspace (s @ [c]) = dropWhile isspace s @ [c]"
    by (rule dropWhile_append1)
  with \<open>isspace c\<close> show ?thesis unfolding strip_def by simp
qed

lemma trimmed_strip: "trimmed (strip s)"
proof -
  define t where "t = dropWhile isspace s"
  define u where "u = dropWhile isspace (rev t)"
  have s: "strip s = rev u" by (simp add: strip_def t_def u_def)
  show ?thesis
  proof (cases "u = []")
    case True
    with s show ?thesis by (simp add: trimmed_def)
  next
    case False
    then have hu: "\<not> isspace (hd u)" unfolding u_def by (rule hd_dropWhile)
    from False have tne: "rev t \<noteq> []" by (auto simp: u_def)
    then have "t \<noteq> []" by simp
    then have ht: "\<not> isspace (hd t)" unfolding t_def by (rule hd_dropWhile)
    have "rev t = takeWhile isspace (rev t) @ u" by (simp add: u_def)
    with False have "last (rev t) = last u" by (metis last_appendR)
    with tne have "last u = hd t" by (simp add: last_rev)
    with ht hu False s show ?thesis
      by (cases "rev u") (auto simp: trimmed_def hd_rev last_rev)
  qed
qed

lemma strip_id:
  assumes "s \<noteq> []" and "\<not> isspace (hd s)" and "\<not> isspace (last s)"
  shows "strip s = s"
proof -
  from assms have 1: "dropWhile isspace s = s" by (cases s) auto
  from assms have 2: "dropWhile isspace (rev s) = rev s"
    by (cases "rev s") (auto simp: last_rev hd_rev)
  show ?thesis by (simp add: strip_def 1 2)
qed

lemma addr_eq:
  assumes "map_of row (K ''STADDR'') = Some (Str a)"
    and "map_of row (K ''STADDR2'') = Some (Str b)"
    and "map_of row (K ''CITY'') = Some (Str c)"
    and "map_of row (K ''STATE'') = Some (Str st)"
    and "map_of row (K ''ZIP'') = Some (Str z)"
  shows "addr row = Inr (strip (a @ '' '' @ b) @ '', '' @ c @ '', '' @ st @ '' '' @ z)"
  using assms by (simp add: addr_def getitem_def and_then_def add_str_def str_add_def)

text \<open>
  C1. For a record whose \<^verbatim>\<open>STADDR2\<close> is the empty string, the query is \<^verbatim>\<open>STADDR\<close>
  stripped of the whitespace at its ends, directly followed by \<^verbatim>\<open>", CITY, STATE ZIP"\<close>:
  the space that joined the two street fields is gone, and the street part ends without
  whitespace before the comma.
\<close>

theorem C1_query_without_staddr2:
  assumes "map_of row (K ''STADDR'') = Some (Str a)"
    and "map_of row (K ''STADDR2'') = Some (Str [])"
    and "map_of row (K ''CITY'') = Some (Str c)"
    and "map_of row (K ''STATE'') = Some (Str st)"
    and "map_of row (K ''ZIP'') = Some (Str z)"
  shows "addr row = Inr (strip a @ '', '' @ c @ '', '' @ st @ '' '' @ z) \<and> trimmed (strip a)"
proof -
  have "strip (a @ '' '' @ []) = strip a"
    using strip_snoc_space [of "CHR '' ''" a] by (simp add: isspace_def)
  with addr_eq [OF assms] show ?thesis by (simp add: trimmed_strip)
qed

text \<open>The record of the specification's example yields exactly its query.\<close>

theorem C1_potter_road:
  "addr ([(K ''STADDR'', Str ''8983 Potter Road''), (K ''STADDR2'', Str []),
          (K ''CITY'', Str ''Des Plaines''), (K ''STATE'', Str ''IL''),
          (K ''ZIP'', Str ''60016'')] :: unit dict)
   = Inr ''8983 Potter Road, Des Plaines, IL 60016''"
  using C1_query_without_staddr2
    [of "[(K ''STADDR'', Str ''8983 Potter Road''), (K ''STADDR2'', Str []),
          (K ''CITY'', Str ''Des Plaines''), (K ''STATE'', Str ''IL''),
          (K ''ZIP'', Str ''60016'')] :: unit dict"
        "''8983 Potter Road''" "''Des Plaines''" "''IL''" "''60016''"]
  by (simp add: strip_def isspace_def)

text \<open>
  C2, as stated, fails: the query need not contain \<^verbatim>\<open>STADDR\<close>, a space and \<^verbatim>\<open>STADDR2\<close>.
  The street fields are joined first and stripped afterwards, so whitespace at the end of
  \<^verbatim>\<open>STADDR2\<close> (or at the start of \<^verbatim>\<open>STADDR\<close>) does not reach the query.
\<close>

theorem C2_trailing_space_dropped:
  "addr ([(K ''STADDR'', Str ''12 Main St''), (K ''STADDR2'', Str ''Suite B ''),
          (K ''CITY'', Str ''Des Plaines''), (K ''STATE'', Str ''IL''),
          (K ''ZIP'', Str ''60016'')] :: unit dict)
   = Inr ''12 Main St Suite B, Des Plaines, IL 60016''
   \<and> \<not> sublist (''12 Main St'' @ '' '' @ ''Suite B '')
         ''12 Main St Suite B, Des Plaines, IL 60016''"
  by (simp add: addr_def getitem_def and_then_def add_str_def str_add_def strip_def
      isspace_def sublist_Cons_right)

text \<open>
  C2, amended. For a record whose \<^verbatim>\<open>STADDR2\<close> is not empty, the query is the street part
  followed by \<^verbatim>\<open>", CITY, STATE ZIP"\<close>, where the street part is \<^verbatim>\<open>STADDR\<close>, one space and
  \<^verbatim>\<open>STADDR2\<close>, stripped: it has no whitespace at either end, and it is exactly
  \<^verbatim>\<open>STADDR\<close>, one space, \<^verbatim>\<open>STADDR2\<close> when \<^verbatim>\<open>STADDR\<close> is not empty and does not start with
  whitespace and \<^verbatim>\<open>STADDR2\<close> does not end with whitespace.
\<close>

theorem C2_query_with_staddr2:
  assumes "map_of row (K ''STADDR'') = Some (Str a)"
    and "map_of row (K ''STADDR2'') = Some (Str b)"
    and "map_of row (K ''CITY'') = Some (Str c)"
    and "map_of row (K ''STATE'') = Some (Str st)"
    and "map_of row (K ''ZIP'') = Some (Str z)"
    and "b \<noteq> []"
  shows "addr row = Inr (strip (a @ '' '' @ b) @ '', '' @ c @ '', '' @ st @ '' '' @ z)
    \<and> trimmed (strip (a @ '' '' @ b))
    \<and> (a \<noteq> [] \<and> \<not> isspace (hd a) \<and> \<not> isspace (last b)
         \<longrightarrow> strip (a @ '' '' @ b) = a @ '' '' @ b)"
proof -
  have "strip (a @ '' '' @ b) = a @ '' '' @ b"
    if "a \<noteq> []" "\<not> isspace (hd a)" "\<not> isspace (last b)"
    using that \<open>b \<noteq> []\<close> by (intro strip_id) auto
  with addr_eq [OF assms(1-5)] show ?thesis by (simp add: trimmed_strip)
qed

text \<open>Two street fields without outer whitespace are joined by one space.\<close>

theorem C2_suite_b:
  "addr ([(K ''STADDR'', Str ''320 West Illinois Route 173''), (K ''STADDR2'', Str ''Suite B''),
          (K ''CITY'', Str ''Antioch''), (K ''STATE'', Str ''IL''),
          (K ''ZIP'', Str ''60002'')] :: unit dict)
   = Inr ''320 West Illinois Route 173 Suite B, Antioch, IL 60002''"
  using C2_query_with_staddr2
    [of "[(K ''STADDR'', Str ''320 West Illinois Route 173''), (K ''STADDR2'', Str ''Suite B''),
          (K ''CITY'', Str ''Antioch''), (K ''STATE'', Str ''IL''),
          (K ''ZIP'', Str ''60002'')] :: unit dict"
        "''320 West Illinois Route 173''" "''Suite B''" "''Antioch''" "''IL''" "''60002''"]
  by (simp add: isspace_def)

section \<open>The writer and the loop body\<close>

lemma dict_to_list_eq:
  "dict_to_list fns d =
     (if fst ` set d \<subseteq> K ` set fns
      then Inr (map (\<lambda>key. get_default d (K key) (Str [])) fns)
      else Inl ValueError)"
  by (auto simp: dict_to_list_def Let_def filter_empty_conv)

lemma keys_setitem: "fst ` set (setitem k v d) = insert k (fst ` set d)"
  by (simp add: setitem_def AList.dom_update)

lemma map_of_setitem: "map_of (setitem k v d) = (map_of d)(k \<mapsto> v)"
  by (simp add: setitem_def AList.update_conv')

lemma keys_enriched:
  "fst ` set (enriched loc row) = {K ''MATCH_ADDR'', K ''LONG_X'', K ''LAT_Y''} \<union> fst ` set row"
  by (simp add: enriched_def keys_setitem)

lemma get_default_enriched:
  "get_default (enriched loc row) (K k) dflt =
     (if k = ''MATCH_ADDR'' then Str (address loc)
      else if k = ''LONG_X'' then Flt (longitude loc)
      else if k = ''LAT_Y'' then Flt (latitude loc)
      else get_default row (K k) dflt)"
  by (simp add: enriched_def get_default_def map_of_setitem)

lemma enriched_cells:
  assumes "writerow output_fields (enriched loc row) = Inr cells"
  shows "cells =
     [get_default row (K ''NAME'') (Str []), get_default row (K ''DBA'') (Str []),
      get_default row (K ''STADDR'') (Str []), get_default row (K ''STADDR2'') (Str []),
      get_default row (K ''CITY'') (Str []), get_default row (K ''STATE'') (Str []),
      get_default row (K ''ZIP'') (Str []),
      Str (address loc), Flt (latitude loc), Flt (longitude loc)]"
  using assms
  by (simp add: writerow_def dict_to_list_eq get_default_enriched split: if_splits)
     (simp add: output_fields_def)

lemma body_cases [consumes 1, case_names addr_fails raises no_match write_fails success]:
  assumes "body g i ln row = (r, evs)"
  obtains e where "addr row = Inl e" "r = Some e" "evs = []"
  | a msg where "addr row = Inr a" "g i a = Raises msg" "r = Some (GeocoderError msg)"
      "evs = [Geocode a]"
  | a where "addr row = Inr a" "g i a = NoMatch" "r = Some AttributeError" "evs = [Geocode a]"
  | a loc e where "addr row = Inr a" "g i a = Found loc"
      "writerow output_fields (enriched loc row) = Inl e" "r = Some e" "evs = [Geocode a]"
  | a loc cells where "addr row = Inr a" "g i a = Found loc"
      "writerow output_fields (enriched loc row) = Inr cells" "r = None"
      "evs = [Geocode a, WriteRow cells,
              Print (''Attempted geocode of '' @ a @ '', row '' @ str_nat ln @ ''.''), Sleep 2]"
  using assms unfolding body_def enriched_def Let_def
  by (auto split: sum.splits geocoded.splits)

section \<open>One turn of the loop\<close>

lemma loop_cases [consumes 1, case_names stop reader_fails cap body_fails step]:
  fixes g :: "'f geocoder"
  assumes "loop g i d = (r, evs, d')"
  obtains "dict_next d = (Inl StopIteration :: exn + 'f dict, d')" "r = None" "evs = []"
  | e where "dict_next d = (Inl e :: exn + 'f dict, d')" "e \<noteq> StopIteration" "r = Some e" "evs = []"
  | row :: "'f dict" where "dict_next d = (Inr row, d')" "\<not> dr_line_num d' \<le> 6" "r = None" "evs = [Print ''All done!'']"
  | row e where "dict_next d = (Inr row, d')" "dr_line_num d' \<le> 6"
      "body g i (dr_line_num d') row = (Some e, evs)" "r = Some e"
  | row d1 evs1 evs2 where "dict_next d = (Inr row, d1)" "dr_line_num d1 \<le> 6"
      "body g i (dr_line_num d1) row = (None, evs1)" "loop g (Suc i) d1 = (r, evs2, d')"
      "evs = evs1 @ evs2"
proof -
  obtain x d1 where dn: "dict_next d = (x :: exn + 'f dict, d1)" by (cases "dict_next d :: (exn + 'f dict) \<times> dict_reader")
  show ?thesis
  proof (cases x)
    case (Inl e)
    with dn assms that(1,2) show ?thesis
      by (cases e) (auto simp: loop.simps [of g i d])
  next
    case (Inr row)
    show ?thesis
    proof (cases "dr_line_num d1 \<le> 6")
      case False
      with dn Inr assms that(3) show ?thesis by (auto simp: loop.simps [of g i d])
    next
      case True
      obtain rb evs1 where b: "body g i (dr_line_num d1) row = (rb, evs1)"
        by (cases "body g i (dr_line_num d1) row")
      show ?thesis
      proof (cases rb)
        case (Some e)
        with dn Inr True b assms that(4) show ?thesis by (auto simp: loop.simps [of g i d])
      next
        case None
        obtain r2 evs2 d2 where l: "loop g (Suc i) d1 = (r2, evs2, d2)"
          by (cases "loop g (Suc i) d1")
        with dn Inr True b None assms that(5) show ?thesis by (auto simp: loop.simps [of g i d])
      qed
    qed
  qed
qed

lemma written_append: "written (xs @ ys) = written xs @ written ys"
  by (induction xs rule: written.induct) auto

lemma printed_append: "printed (xs @ ys) = printed xs @ printed ys"
  by (induction xs rule: printed.induct) auto

lemma queries_append: "queries (xs @ ys) = queries xs @ queries ys"
  by (induction xs rule: queries.induct) auto

section \<open>Runs of the loop\<close>

lemma snd_dict_next: "snd (dict_next d) = snd (next_row d)"
  by (simp add: dict_next_def split: prod.splits sum.splits)

lemma loop_written_rows:
  "loop g i d = (r, evs, d') \<Longrightarrow> cells \<in> set (written evs) \<Longrightarrow>
     length cells = 10 \<and> (\<exists>x. cells ! 8 = Flt x)"
proof (induction g i d arbitrary: r evs d' rule: loop.induct)
  case (1 g i d)
  from "1.prems"(1) show ?case
  proof (cases rule: loop_cases)
    case stop
    with "1.prems"(2) show ?thesis by simp
  next
    case (reader_fails e)
    with "1.prems"(2) show ?thesis by simp
  next
    case (cap row)
    with "1.prems"(2) show ?thesis by simp
  next
    case (body_fails row e)
    from body_fails(3) "1.prems"(2) show ?thesis by (cases rule: body_cases) auto
  next
    case (step row d1 evs1 evs2)
    from step(3) obtain a loc c where
      ev1: "evs1 = [Geocode a, WriteRow c,
              Print (''Attempted geocode of '' @ a @ '', row '' @ str_nat (dr_line_num d1) @ ''.''), Sleep 2]"
      and w: "writerow output_fields (enriched loc row) = Inr c"
      by (cases rule: body_cases) auto
    from "1.prems"(2) step(5) ev1 have "cells = c \<or> cells \<in> set (written evs2)"
      by (auto simp: written_append)
    then show ?thesis
    proof
      assume "cells = c"
      with enriched_cells [OF w] show ?thesis by simp
    next
      assume "cells \<in> set (written evs2)"
      with "1.IH" [OF step(1) [symmetric] refl step(2) step(3) [symmetric] refl step(4)]
      show ?thesis .
    qed
  qed
qed

lemma loop_spaced:
  "loop g i d = (r, evs, d') \<Longrightarrow> spaced False evs \<and> (r = None \<longrightarrow> sleep_follows evs)"
proof (induction g i d arbitrary: r evs d' rule: loop.induct)
  case (1 g i d)
  from "1.prems"(1) show ?case
  proof (cases rule: loop_cases)
    case stop
    then show ?thesis by simp
  next
    case (reader_fails e)
    then show ?thesis by simp
  next
    case (cap row)
    then show ?thesis by simp
  next
    case (body_fails row e)
    from body_fails(3) body_fails(4) show ?thesis by (cases rule: body_cases) auto
  next
    case (step row d1 evs1 evs2)
    from step(3) obtain a c p where ev1: "evs1 = [Geocode a, WriteRow c, Print p, Sleep 2]"
      by (cases rule: body_cases) auto
    from "1.IH" [OF step(1) [symmetric] refl step(2) step(3) [symmetric] refl step(4)]
    have "spaced False evs2" and "r = None \<longrightarrow> sleep_follows evs2" by simp_all
    with ev1 step(5) show ?thesis by simp
  qed
qed

lemma loop_failed_call:
  assumes "loop g i d = (r, evs, d')"
    and "k < length (queries evs)"
    and "\<forall>loc. g (i + k) (queries evs ! k) \<noteq> Found loc"
  shows "Suc k = length (queries evs) \<and> evs \<noteq> [] \<and> last evs = Geocode (queries evs ! k)
    \<and> length (printed evs) = k \<and> length (written evs) = k
    \<and> (g (i + k) (queries evs ! k) = NoMatch \<longrightarrow> r = Some AttributeError)
    \<and> (\<forall>msg. g (i + k) (queries evs ! k) = Raises msg \<longrightarrow> r = Some (GeocoderError msg))
    \<and> d' = advance (Suc k) d"
  using assms
proof (induction g i d arbitrary: r evs d' k rule: loop.induct)
  case (1 g i d)
  from "1.prems"(1) show ?case
  proof (cases rule: loop_cases)
    case stop
    with "1.prems"(2) show ?thesis by simp
  next
    case (reader_fails e)
    with "1.prems"(2) show ?thesis by simp
  next
    case (cap row)
    with "1.prems"(2) show ?thesis by simp
  next
    case (body_fails row e)
    from body_fails(1) have d': "d' = snd (next_row d)"
      using snd_dict_next [of d, where ?'a = 'a] by simp
    from body_fails(3) show ?thesis
    proof (cases rule: body_cases)
      case (addr_fails e')
      with "1.prems"(2) show ?thesis by simp
    next
      case (raises a msg)
      with "1.prems"(2) have "k = 0" by simp
      with raises body_fails(4) d' show ?thesis by simp
    next
      case (no_match a)
      with "1.prems"(2) have "k = 0" by simp
      with no_match body_fails(4) d' show ?thesis by simp
    next
      case (write_fails a loc e')
      with "1.prems"(2) have "k = 0" by simp
      with write_fails "1.prems"(3) show ?thesis by simp
    next
      case (success a loc cells)
      with body_fails(4) show ?thesis by simp
    qed
  next
    case (step row d1 evs1 evs2)
    from step(1) have d1: "d1 = snd (next_row d)"
      using snd_dict_next [of d, where ?'a = 'a] by simp
    from step(3) obtain a loc c p where ev1: "evs1 = [Geocode a, WriteRow c, Print p, Sleep 2]"
      and found: "g i a = Found loc"
      by (cases rule: body_cases) auto
    from ev1 step(5) have q: "queries evs = a # queries evs2" by simp
    show ?thesis
    proof (cases k)
      case 0
      with q found "1.prems"(3) show ?thesis by simp
    next
      case (Suc k')
      with q "1.prems"(2,3) have k': "k' < length (queries evs2)"
        and f': "\<forall>loc. g (Suc i + k') (queries evs2 ! k') \<noteq> Found loc" by simp_all
      have nth: "queries evs ! k = queries evs2 ! k'" and idx: "i + k = Suc i + k'"
        using q Suc by simp_all
      note ih = "1.IH" [OF step(1) [symmetric] refl step(2) step(3) [symmetric] refl step(4) k' f']
      note len = ih [THEN conjunct1, symmetric]
      from ih have ne: "evs2 \<noteq> []"
        and lst: "last evs2 = Geocode (queries evs2 ! k')"
        and cnt: "length (printed evs2) = k'" "length (written evs2) = k'"
        and rd: "d' = advance (Suc k') d1"
        by blast+
      from ih have exn: "g (Suc i + k') (queries evs2 ! k') = NoMatch \<longrightarrow> r = Some AttributeError"
        "\<forall>msg. g (Suc i + k') (queries evs2 ! k') = Raises msg \<longrightarrow> r = Some (GeocoderError msg)"
        by blast+
      have "Suc k = length (queries evs)" using q len Suc by simp
      moreover have "evs \<noteq> []" using step(5) ev1 by simp
      moreover have "last evs = Geocode (queries evs ! k)"
        using step(5) ne lst nth by simp
      moreover have "length (printed evs) = k" "length (written evs) = k"
        using step(5) ev1 cnt Suc by (simp_all add: printed_append written_append)
      moreover have "d' = advance (Suc k) d" using rd d1 Suc by simp
      ultimately show ?thesis using exn unfolding nth idx by blast
    qed
  qed
qed



lemma loop_turns: "loop g i d = (r, evs, d') \<Longrightarrow> turns evs"
proof (induction g i d arbitrary: r evs d' rule: loop.induct)
  case (1 g i d)
  from "1.prems"(1) show ?case
  proof (cases rule: loop_cases)
    case stop
    then show ?thesis by simp
  next
    case (reader_fails e)
    then show ?thesis by simp
  next
    case (cap row)
    then show ?thesis by simp
  next
    case (body_fails row e)
    from body_fails(3) show ?thesis by (cases rule: body_cases) auto
  next
    case (step row d1 evs1 evs2)
    from step(3) obtain a c p where ev1: "evs1 = [Geocode a, WriteRow c, Print p, Sleep 2]"
      by (cases rule: body_cases) auto
    from "1.IH" [OF step(1) [symmetric] refl step(2) step(3) [symmetric] refl step(4)]
    have "turns evs2" .
    with ev1 step(5) show ?thesis by simp
  qed
qed


section \<open>Files with one row per line\<close>

lemma next_row_reading:
  "cells \<noteq> [] \<Longrightarrow>
     next_row (reading fns ((n, cells) # rest) L) = (Inr (fns, cells), reading fns rest (L + n))"
  by (simp add: next_row_def reading_def fieldnames_def reader_next_def skip_blank.simps Let_def)

lemma next_row_reading_Nil: "next_row (reading fns [] L) = (Inl StopIteration, reading fns [] L)"
  by (simp add: next_row_def reading_def fieldnames_def reader_next_def Let_def)

lemma fieldnames_reading: "fieldnames (reading fns rows n) = (Some fns, reading fns rows n)"
  by (simp add: fieldnames_def reading_def)

lemma fieldnames_DictReader:
  "fieldnames (DictReader ((n, fns) # rows)) = (Some fns, reading fns rows n)"
  by (simp add: fieldnames_def DictReader_def reading_def reader_next_def)

lemma next_row_DictReader: "next_row (DictReader ((n, fns) # rows)) = next_row (reading fns rows n)"
proof -
  have 0: "dr_line_num (DictReader ((n, fns) # rows)) = 0" by (simp add: DictReader_def)
  have "(if dr_line_num (reading fns rows n) = 0 then snd (fieldnames (reading fns rows n))
         else reading fns rows n) = reading fns rows n"
    by (simp add: fieldnames_reading)
  then show ?thesis
    unfolding next_row_def [of "DictReader ((n, fns) # rows)"] next_row_def [of "reading fns rows n"]
    by (simp add: 0 fieldnames_DictReader)
qed

lemma loop_DictReader: "loop g i (DictReader ((n, fns) # rows)) = loop g i (reading fns rows n)"
  by (simp add: loop.simps [of g i "DictReader ((n, fns) # rows)"] loop.simps [of g i "reading fns rows n"]
      dict_next_def next_row_DictReader)

lemma map_of_fold_setitem:
  "map_of (fold (\<lambda>(k, v) d. setitem k v d) ps d0) k = Some v \<Longrightarrow>
     (k, v) \<in> set ps \<or> map_of d0 k = Some v"
proof (induction ps arbitrary: d0)
  case Nil
  then show ?case by simp
next
  case (Cons p ps)
  obtain k' v' where p: "p = (k', v')" by (cases p)
  from Cons.prems p have "map_of (fold (\<lambda>(k, v) d. setitem k v d) ps (setitem k' v' d0)) k = Some v"
    by simp
  from Cons.IH [OF this] show ?case
    by (auto simp: p map_of_setitem split: if_splits)
qed

lemma keys_fold_setitem:
  "fst ` set (fold (\<lambda>(k, v) d. setitem k v d) ps d0) = fst ` set ps \<union> fst ` set d0"
proof (induction ps arbitrary: d0)
  case Nil
  show ?case by simp
next
  case (Cons p ps)
  obtain k v where p: "p = (k, v)" by (cases p)
  have "fst ` set (fold (\<lambda>(k, v) d. setitem k v d) (p # ps) d0)
      = fst ` set ps \<union> fst ` set (setitem k v d0)"
    by (simp add: p Cons.IH)
  also have "\<dots> = fst ` set (p # ps) \<union> fst ` set d0"
    by (simp add: p keys_setitem)
  finally show ?case .
qed

lemma row_dict_lookup:
  assumes "length cells = length fns" and "k \<in> set fns"
  shows "\<exists>s. map_of (row_dict fns cells :: 'f dict) (K k) = Some (Str s)"
proof -
  let ?ps = "zip (map K fns) (map Str cells) :: (pykey \<times> 'f pyval) list"
  from assms(1) have rd: "row_dict fns cells = dict_of ?ps" by (simp add: row_dict_def Let_def)
  from assms(1) have "map fst ?ps = map K fns" by simp
  then have "fst ` set ?ps = K ` set fns" by (metis set_map)
  moreover from assms(2) have "K k \<in> K ` set fns" by (rule imageI)
  ultimately have "K k \<in> fst ` set ?ps" by metis
  then have "K k \<in> fst ` set (dict_of ?ps)" unfolding dict_of_def keys_fold_setitem by (rule UnI1)
  then have "map_of (dict_of ?ps) (K k) \<noteq> None" by (simp only: map_of_eq_None_iff not_not)
  then obtain v where v: "map_of (dict_of ?ps) (K k) = Some v" by blast
  then have "(K k, v) \<in> set ?ps"
    using map_of_fold_setitem [of ?ps "[]" "K k" v] by (simp add: dict_of_def)
  then have "v \<in> set (map Str cells)" by (rule set_zip_rightD)
  then obtain s where "v = Str s" by auto
  with v rd show ?thesis by simp
qed

lemma row_dict_keys:
  assumes "length cells = length fns"
  shows "fst ` set (row_dict fns cells :: 'f dict) = K ` set fns"
proof -
  let ?ps = "zip (map K fns) (map Str cells) :: (pykey \<times> 'f pyval) list"
  from assms have rd: "row_dict fns cells = dict_of ?ps" by (simp add: row_dict_def Let_def)
  from assms have "map fst ?ps = map K fns" by simp
  then have "fst ` set ?ps = K ` set fns" by (metis set_map)
  then show ?thesis by (simp add: rd dict_of_def keys_fold_setitem)
qed

lemma body_plain:
  fixes g :: "'f geocoder"
  assumes addr_cols: "set [''STADDR'', ''STADDR2'', ''CITY'', ''STATE'', ''ZIP''] \<subseteq> set fns"
    and out_cols: "set fns \<subseteq> set output_fields"
    and len: "length cells = length fns"
    and found: "\<forall>i q. \<exists>loc. g i q = Found loc"
  shows "\<exists>a c p. body g i ln (row_dict fns cells) = (None, [Geocode a, WriteRow c, Print p, Sleep 2])
           \<and> p \<noteq> ''All done!''"
proof -
  let ?row = "row_dict fns cells :: 'f dict"
  have look: "\<exists>s. map_of ?row (K k) = Some (Str s)"
    if "k \<in> set [''STADDR'', ''STADDR2'', ''CITY'', ''STATE'', ''ZIP'']" for k
    using that addr_cols row_dict_lookup [OF len, of k, where ?'f = 'f] by blast
  obtain a where a: "map_of ?row (K ''STADDR'') = Some (Str a)"
    using look [of "''STADDR''"] by auto
  obtain b where b: "map_of ?row (K ''STADDR2'') = Some (Str b)"
    using look [of "''STADDR2''"] by auto
  obtain c where c: "map_of ?row (K ''CITY'') = Some (Str c)"
    using look [of "''CITY''"] by auto
  obtain st where st: "map_of ?row (K ''STATE'') = Some (Str st)"
    using look [of "''STATE''"] by auto
  obtain z where z: "map_of ?row (K ''ZIP'') = Some (Str z)"
    using look [of "''ZIP''"] by auto
  from addr_eq [OF a b c st z] obtain q where q: "addr ?row = Inr q" by blast
  from found obtain loc where loc: "g i q = Found loc" by blast
  have "{K ''MATCH_ADDR'', K ''LONG_X'', K ''LAT_Y''} \<subseteq> K ` set output_fields"
    by (simp add: output_fields_def)
  moreover from out_cols have "K ` set fns \<subseteq> K ` set output_fields" by (rule image_mono)
  ultimately have "fst ` set (enriched loc ?row) \<subseteq> K ` set output_fields"
    unfolding keys_enriched row_dict_keys [OF len] by (rule Un_least)
  then obtain cs where w: "writerow output_fields (enriched loc ?row) = Inr cs"
    by (simp add: writerow_def dict_to_list_eq)
  obtain r evs where bd: "body g i ln ?row = (r, evs)" by (cases "body g i ln ?row")
  from bd q loc w have "r = None \<and> evs = [Geocode q, WriteRow cs,
      Print (''Attempted geocode of '' @ q @ '', row '' @ str_nat ln @ ''.''), Sleep 2]"
    by (cases rule: body_cases) auto
  with bd show ?thesis by simp
qed

lemma loop_plain:
  fixes g :: "'f geocoder"
  assumes addr_cols: "set [''STADDR'', ''STADDR2'', ''CITY'', ''STATE'', ''ZIP''] \<subseteq> set fns"
    and out_cols: "set fns \<subseteq> set output_fields"
    and found: "\<forall>i q. \<exists>loc. g i q = Found loc"
  shows "\<forall>(n, cells) \<in> set rows. n = 1 \<and> length cells = length fns \<Longrightarrow>
     loop g i (reading fns rows L) = (r, evs, d') \<Longrightarrow>
     r = None \<and> length (written evs) = min (6 - L) (length rows)
       \<and> length (queries evs) = min (6 - L) (length rows)
       \<and> (''All done!'' \<in> set (printed evs) \<longleftrightarrow> 6 - L < length rows)"
proof (induction rows arbitrary: i L r evs d')
  case Nil
  from Nil(2) show ?case
    by (simp add: loop.simps [of g i "reading fns [] L"] dict_next_def next_row_reading_Nil)
next
  case (Cons row rows)
  obtain n cells where row: "row = (n, cells)" by (cases row)
  with Cons.prems(1) have n: "n = 1" and len: "length cells = length fns" by simp_all
  from addr_cols have "fns \<noteq> []" by auto
  with len have ne: "cells \<noteq> []" by auto
  have dn: "dict_next (reading fns (row # rows) L)
      = (Inr (row_dict fns cells) :: exn + 'f dict, reading fns rows (Suc L))"
    by (simp add: dict_next_def row n next_row_reading [OF ne])
  have ln: "dr_line_num (reading fns rows (Suc L)) = Suc L" by (simp add: reading_def)
  show ?case
  proof (cases "Suc L \<le> 6")
    case False
    with Cons.prems(2) dn ln show ?thesis
      by (auto simp: loop.simps [of g i "reading fns (row # rows) L"])
  next
    case True
    from body_plain [OF addr_cols out_cols len found, of i "Suc L"]
    obtain a c p where b: "body g i (Suc L) (row_dict fns cells) = (None, [Geocode a, WriteRow c, Print p, Sleep 2])"
      and p: "p \<noteq> ''All done!''" by blast
    obtain r2 evs2 d2 where l2: "loop g (Suc i) (reading fns rows (Suc L)) = (r2, evs2, d2)"
      by (cases "loop g (Suc i) (reading fns rows (Suc L))")
    from Cons.prems(1) have "\<forall>(n, cells) \<in> set rows. n = 1 \<and> length cells = length fns" by simp
    from Cons.IH [OF this l2] have ih: "r2 = None" "length (written evs2) = min (6 - Suc L) (length rows)"
      "length (queries evs2) = min (6 - Suc L) (length rows)"
      "(''All done!'' \<in> set (printed evs2) \<longleftrightarrow> 6 - Suc L < length rows)" by blast+
    from Cons.prems(2) dn ln True b l2
    have res: "r = r2" "evs = [Geocode a, WriteRow c, Print p, Sleep 2] @ evs2"
      by (auto simp: loop.simps [of g i "reading fns (row # rows) L"])
    from True have arith: "min (6 - L) (Suc (length rows)) = Suc (min (6 - Suc L) (length rows))"
      "(6 - L < Suc (length rows)) = (6 - Suc L < length rows)" by auto
    from res ih p show ?thesis by (simp add: arith)
  qed
qed

section \<open>Runs of the notebook\<close>

lemma writeheader_eq: "writeheader output_fields = Inr (map Str output_fields)"
  by (simp add: writeheader_def writerow_def dict_to_list_def output_fields_def dict_of_def
      setitem_def get_default_def)

lemma notebook_cases [consumes 1, case_names no_input no_output failed finished]:
  fixes g :: "'f geocoder"
  assumes "notebook fs g = (r, evs, d)"
  obtains "contents fs ''payday_lenders.csv'' = None" "r = Some IOError" "evs = []" "d = None"
  | f where "contents fs ''payday_lenders.csv'' = Some f"
      "\<not> creatable fs ''payday_geocoded.csv''" "r = Some IOError" "evs = []"
      "d = Some (DictReader f)"
  | f e evs' d' where "contents fs ''payday_lenders.csv'' = Some f"
      "creatable fs ''payday_geocoded.csv''" "loop g 0 (DictReader f) = (Some e, evs', d')"
      "r = Some e" "evs = WriteRow (map Str output_fields) # evs'" "d = Some d'"
  | f evs' d' where "contents fs ''payday_lenders.csv'' = Some f"
      "creatable fs ''payday_geocoded.csv''" "loop g 0 (DictReader f) = (None, evs', d')"
      "r = None"
      "evs = WriteRow (map Str output_fields) # evs' @
         [CloseFile ''payday_lenders.csv'', CloseFile ''payday_geocoded.csv'']"
      "d = Some d'"
proof (cases "contents fs ''payday_lenders.csv''")
  case None
  with assms that(1) show ?thesis by (simp add: notebook_def open_rb_def)
next
  case (Some f)
  show ?thesis
  proof (cases "creatable fs ''payday_geocoded.csv''")
    case False
    with Some assms that(2) show ?thesis by (simp add: notebook_def open_rb_def open_wb_def)
  next
    case True
    obtain r' evs' d' where l: "loop g 0 (DictReader f) = (r', evs', d')"
      by (cases "loop g 0 (DictReader f)")
    show ?thesis
    proof (cases r')
      case None
      with l Some True assms that(4) show ?thesis
        by (auto simp: notebook_def open_rb_def open_wb_def writeheader_eq)
    next
      case (Some e)
      with l \<open>contents fs ''payday_lenders.csv'' = Some f\<close> True assms that(3) show ?thesis
        by (auto simp: notebook_def open_rb_def open_wb_def writeheader_eq)
    qed
  qed
qed

lemma answers_nth:
  "k < length (queries evs) \<Longrightarrow> answers g i evs ! k = g (i + k) (queries evs ! k)"
  by (simp add: answers_def)


lemma notebook_failed_call:
  fixes g :: "'f geocoder"
  assumes run: "notebook fs g = (r, evs, d)"
    and k: "k < length (queries evs)"
    and fail: "\<forall>loc. g k (queries evs ! k) \<noteq> Found loc"
  obtains f e evs' d' where "contents fs ''payday_lenders.csv'' = Some f"
      "creatable fs ''payday_geocoded.csv''" "loop g 0 (DictReader f) = (Some e, evs', d')"
      "r = Some e" "evs = WriteRow (map Str output_fields) # evs'" "d = Some d'"
      "k < length (queries evs')" "queries evs' = queries evs"
proof -
  from run show ?thesis
  proof (cases rule: notebook_cases)
    case no_input
    with k show ?thesis by simp
  next
    case (no_output f)
    with k show ?thesis by simp
  next
    case (failed f e evs' d')
    from failed(5) have q: "queries evs' = queries evs" by simp
    with k have k': "k < length (queries evs')" by simp
    from failed k' q show ?thesis by (rule that)
  next
    case (finished f evs' d')
    from finished(5) have q: "queries evs = queries evs'" by (simp add: queries_append)
    with k fail have k': "k < length (queries evs')"
      and f': "\<forall>loc. g (0 + k) (queries evs' ! k) \<noteq> Found loc"
      by simp_all
    note lf = loop_failed_call [OF finished(3) k' f']
    from lf have 1: "g (0 + k) (queries evs' ! k) = NoMatch \<longrightarrow> None = Some AttributeError"
      by blast
    from lf have 2: "\<forall>msg. g (0 + k) (queries evs' ! k) = Raises msg \<longrightarrow> None = Some (GeocoderError msg)"
      by blast
    have False
    proof (cases "g (0 + k) (queries evs' ! k)")
      case (Found loc)
      with f' show False by blast
    next
      case NoMatch
      with 1 show False by simp
    next
      case (Raises msg)
      with 2 show False by simp
    qed
    then show ?thesis ..
  qed
qed


lemma on_disk_finished:
  assumes "notebook fs g = (None, evs, d)"
    and "contents fs ''payday_lenders.csv'' \<noteq> None" and "creatable fs ''payday_geocoded.csv''"
  shows "on_disk evs = Some (written evs)"
  using assms(1)
proof (cases rule: notebook_cases)
  case (finished f evs' d')
  then show ?thesis by (simp add: on_disk_def)
qed (use assms in simp_all)


lemma run_triple:
  "notebook fs g = (fst (notebook fs g), fst (snd (notebook fs g)), snd (snd (notebook fs g)))"
  by simp

section \<open>Provider failures\<close>

text \<open>
  C4, as stated, fails: nothing is logged for a row whose provider call fails. With one
  data row and a provider that finds nothing, the run ends with the uncaught
  \<^verbatim>\<open>AttributeError\<close> and the console is empty: the progress line comes after the write.
\<close>

theorem C4_failure_not_logged:
  "fst (notebook (lenders 1) finds_none)
     = Some AttributeError
   \<and> printed (fst (snd (notebook (lenders 1) finds_none)))
     = []"
  by code_simp

text \<open>
  C4, amended. A provider call that fails is never passed over: when call \<open>k\<close> (counted
  from 0) of a run returns no location or raises, the run ends there with an uncaught
  exception, \<^verbatim>\<open>AttributeError\<close> for no location and the provider's exception otherwise.
  The failing call is the last event of the run, and the console holds the \<open>k\<close> progress
  lines of the rows before: no line is printed for the failing row.
\<close>

theorem C4_failed_call_ends_run:
  assumes "notebook fs g = (r, evs, d)"
    and "k < length (queries evs)"
    and "\<forall>loc. answers g 0 evs ! k \<noteq> Found loc"
  shows "(answers g 0 evs ! k = NoMatch \<longrightarrow> r = Some AttributeError)
    \<and> (\<forall>msg. answers g 0 evs ! k = Raises msg \<longrightarrow> r = Some (GeocoderError msg))
    \<and> r \<noteq> None
    \<and> last evs = Geocode (queries evs ! k)
    \<and> length (printed evs) = k"
proof -
  from assms(2,3) have fail: "\<forall>loc. g k (queries evs ! k) \<noteq> Found loc"
    by (simp add: answers_nth)
  from assms(1,2) fail obtain f e evs' d' where
    l: "loop g 0 (DictReader f) = (Some e, evs', d')" and r: "r = Some e"
    and evs: "evs = WriteRow (map Str output_fields) # evs'"
    and k': "k < length (queries evs')" and q: "queries evs' = queries evs"
    by (rule notebook_failed_call)
  from fail q have "\<forall>loc. g (0 + k) (queries evs' ! k) \<noteq> Found loc" by simp
  note lf = loop_failed_call [OF l k' this]
  from lf have "evs' \<noteq> []" "last evs' = Geocode (queries evs' ! k)" "length (printed evs') = k"
    by blast+
  with evs q have "last evs = Geocode (queries evs ! k)" "length (printed evs) = k" by simp_all
  moreover from lf r q have "g k (queries evs ! k) = NoMatch \<longrightarrow> r = Some AttributeError"
    "\<forall>msg. g k (queries evs ! k) = Raises msg \<longrightarrow> r = Some (GeocoderError msg)" by simp_all
  ultimately show ?thesis using r assms(2) by (simp add: answers_nth)
qed

lemma run_third_call_fails:
  "notebook (lenders 3) (finds_first 2) =
     (Some AttributeError,
      [WriteRow (map Str output_fields),
       Geocode ''8983 Potter Road, Des Plaines, IL 60016'',
       WriteRow [Str ''Acme'', Str ''Acme Loans'', Str ''8983 Potter Road'', Str [],
         Str ''Des Plaines'', Str ''IL'', Str ''60016'',
         Str ''8983 Potter Road, Des Plaines, IL 60016'', Flt 42, Flt 87],
       Print ''Attempted geocode of 8983 Potter Road, Des Plaines, IL 60016, row 2.'',
       Sleep 2,
       Geocode ''8983 Potter Road, Des Plaines, IL 60016'',
       WriteRow [Str ''Acme'', Str ''Acme Loans'', Str ''8983 Potter Road'', Str [],
         Str ''Des Plaines'', Str ''IL'', Str ''60016'',
         Str ''8983 Potter Road, Des Plaines, IL 60016'', Flt 43, Flt 88],
       Print ''Attempted geocode of 8983 Potter Road, Des Plaines, IL 60016, row 3.'',
       Sleep 2,
       Geocode ''8983 Potter Road, Des Plaines, IL 60016''],
      Some (reading lenders_header [] 4))"
  by code_simp

text \<open>Three data rows, the third call finding nothing.\<close>

theorem C4_third_call_fails:
  "fst (notebook (lenders 3) (finds_first 2)) = Some AttributeError
   \<and> last (fst (snd (notebook (lenders 3) (finds_first 2))))
       = Geocode ''8983 Potter Road, Des Plaines, IL 60016''
   \<and> length (printed (fst (snd (notebook (lenders 3) (finds_first 2))))) = 2"
  using C4_failed_call_ends_run [OF run_third_call_fails, of 2]
  by (simp add: run_third_call_fails answers_def finds_first_def)

section \<open>The pause between provider calls\<close>

lemma spaced_quiet: "queries ys = [] \<Longrightarrow> spaced due ys"
  by (induction due ys rule: spaced.induct) auto

lemma spaced_append_quiet: "queries ys = [] \<Longrightarrow> spaced due (xs @ ys) = spaced due xs"
  by (induction due xs rule: spaced.induct) (auto simp: spaced_quiet)

lemma sleep_follows_closes:
  "sleep_follows (xs @ [CloseFile a, CloseFile b]) = sleep_follows xs"
  by (induction xs rule: sleep_follows.induct) auto

text \<open>
  C5, as stated, fails: the pause is not applied after a call that fails. With one data
  row and a provider that finds nothing, no pause follows the call.
\<close>

theorem C5_no_pause_after_failed_call:
  "\<not> sleep_follows (fst (snd (notebook (lenders 1) finds_none)))"
  by code_simp

text \<open>
  C5, amended. In every run a pause of two seconds lies between any two consecutive
  provider calls: no call is made while the pause after the previous one is due. The
  pause ends each turn of the loop that completes: the run is the header line, then
  turns of call, write, progress line and pause in this order, so a run that ends
  normally has a pause after every call. A call that fails is followed neither by a
  pause nor by another call: it is the last call and the last event of the run. The
  pause is the event \<^verbatim>\<open>time.sleep(2)\<close>; wall-clock time is not part of the model.
\<close>

theorem C5_pause_between_calls:
  assumes "notebook fs g = (r, evs, d)"
  shows "spaced False evs
    \<and> (r = None \<longrightarrow> sleep_follows evs)
    \<and> (evs = [] \<or>
        (\<exists>es. turns es \<and>
           (evs = WriteRow (map Str output_fields) # es \<or>
            evs = WriteRow (map Str output_fields) # es @
                    [CloseFile ''payday_lenders.csv'', CloseFile ''payday_geocoded.csv''])))
    \<and> (\<forall>k < length (queries evs). (\<forall>loc. answers g 0 evs ! k \<noteq> Found loc) \<longrightarrow>
          Suc k = length (queries evs) \<and> last evs = Geocode (queries evs ! k))"
proof -
  have a: "spaced False evs \<and> (r = None \<longrightarrow> sleep_follows evs)"
    using assms
  proof (cases rule: notebook_cases)
    case no_input
    then show ?thesis by simp
  next
    case (no_output f)
    then show ?thesis by simp
  next
    case (failed f e evs' d')
    with loop_spaced [OF failed(3)] show ?thesis by simp
  next
    case (finished f evs' d')
    with loop_spaced [OF finished(3)] show ?thesis
      by (simp add: spaced_append_quiet sleep_follows_closes)
  qed
  have b: "evs = [] \<or>
        (\<exists>es. turns es \<and>
           (evs = WriteRow (map Str output_fields) # es \<or>
            evs = WriteRow (map Str output_fields) # es @
                    [CloseFile ''payday_lenders.csv'', CloseFile ''payday_geocoded.csv'']))"
    using assms
  proof (cases rule: notebook_cases)
    case no_input
    then show ?thesis by simp
  next
    case (no_output f)
    then show ?thesis by simp
  next
    case (failed f e evs' d')
    with loop_turns [OF failed(3)] show ?thesis by blast
  next
    case (finished f evs' d')
    with loop_turns [OF finished(3)] show ?thesis by blast
  qed
  have c: "Suc k = length (queries evs) \<and> last evs = Geocode (queries evs ! k)"
    if k: "k < length (queries evs)" and f: "\<forall>loc. answers g 0 evs ! k \<noteq> Found loc" for k
  proof -
    from k f have fail: "\<forall>loc. g k (queries evs ! k) \<noteq> Found loc" by (simp add: answers_nth)
    from assms k fail obtain f e evs' d' where
      l: "loop g 0 (DictReader f) = (Some e, evs', d')"
      and evs: "evs = WriteRow (map Str output_fields) # evs'"
      and k': "k < length (queries evs')" and q: "queries evs' = queries evs"
      by (rule notebook_failed_call)
    from fail q have "\<forall>loc. g (0 + k) (queries evs' ! k) \<noteq> Found loc" by simp
    note lf = loop_failed_call [OF l k' this]
    from lf have s: "Suc k = length (queries evs')" and ne: "evs' \<noteq> []"
      and lst: "last evs' = Geocode (queries evs' ! k)" by blast+
    from ne lst have "last (WriteRow (map Str output_fields) # evs')
        = Geocode (queries (WriteRow (map Str output_fields) # evs') ! k)" by simp
    then have "last evs = Geocode (queries evs ! k)" unfolding evs .
    moreover from s have "Suc k = length (queries evs)" unfolding q .
    ultimately show ?thesis by (intro conjI)
  qed
  from a b c show ?thesis by blast
qed

text \<open>Three data rows, every call succeeding.\<close>

theorem C5_three_rows:
  "spaced False (fst (snd (notebook (lenders 3) finds_all)))
   \<and> sleep_follows (fst (snd (notebook (lenders 3) finds_all)))"
proof -
  have "fst (notebook (lenders 3) finds_all) = None" by code_simp
  with C5_pause_between_calls [OF run_triple [of "lenders 3" finds_all]]
  show ?thesis by simp
qed


section \<open>The header line\<close>

text \<open>
  C6. In every run that opens both files, the first line written is the header with the
  ten column names \<^verbatim>\<open>NAME, DBA, STADDR, STADDR2, CITY, STATE, ZIP, MATCH_ADDR, LAT_Y, LONG_X\<close>
  in that order, and no line after it is the header: it is written once, before any data
  row. A run that cannot open a file writes nothing, so no data row is ever written
  without the header before it.
\<close>

theorem C6_header_first_and_once:
  assumes "notebook fs g = (r, evs, d)"
  shows "if contents fs ''payday_lenders.csv'' \<noteq> None \<and> creatable fs ''payday_geocoded.csv''
         then \<exists>rows. written evs =
                [Str ''NAME'', Str ''DBA'', Str ''STADDR'', Str ''STADDR2'', Str ''CITY'',
                 Str ''STATE'', Str ''ZIP'', Str ''MATCH_ADDR'', Str ''LAT_Y'', Str ''LONG_X'']
                # rows
              \<and> [Str ''NAME'', Str ''DBA'', Str ''STADDR'', Str ''STADDR2'', Str ''CITY'',
                 Str ''STATE'', Str ''ZIP'', Str ''MATCH_ADDR'', Str ''LAT_Y'', Str ''LONG_X'']
                \<notin> set rows
         else written evs = []"
proof -
  let ?h = "[Str ''NAME'', Str ''DBA'', Str ''STADDR'', Str ''STADDR2'', Str ''CITY'',
             Str ''STATE'', Str ''ZIP'', Str ''MATCH_ADDR'', Str ''LAT_Y'', Str ''LONG_X'']
            :: 'a pyval list"
  have h: "map Str output_fields = ?h" by (simp add: output_fields_def)
  have data: "?h \<notin> set (written evs')" if "loop g 0 (DictReader f) = (r', evs', d')"
    for f r' evs' d'
  proof
    assume "?h \<in> set (written evs')"
    from loop_written_rows [OF that this] show False by simp
  qed
  from assms show ?thesis
  proof (cases rule: notebook_cases)
    case no_input
    then show ?thesis by simp
  next
    case (no_output f)
    then show ?thesis by simp
  next
    case (failed f e evs' d')
    with data [OF failed(3)] h show ?thesis by simp
  next
    case (finished f evs' d')
    with data [OF finished(3)] h show ?thesis by (simp add: written_append)
  qed
qed

text \<open>Three data rows: the header is the first line, and it occurs once.\<close>

theorem C6_three_rows:
  "hd (written (fst (snd (notebook (lenders 3) finds_all))))
     = [Str ''NAME'', Str ''DBA'', Str ''STADDR'', Str ''STADDR2'', Str ''CITY'',
        Str ''STATE'', Str ''ZIP'', Str ''MATCH_ADDR'', Str ''LAT_Y'', Str ''LONG_X'']
   \<and> count_list (written (fst (snd (notebook (lenders 3) finds_all))))
       [Str ''NAME'', Str ''DBA'', Str ''STADDR'', Str ''STADDR2'', Str ''CITY'',
        Str ''STATE'', Str ''ZIP'', Str ''MATCH_ADDR'', Str ''LAT_Y'', Str ''LONG_X''] = 1"
  using C6_header_first_and_once [OF run_triple [of "lenders 3" finds_all]]
  by (auto simp: lenders_def input_only_def count_list_0_iff)

section \<open>The write step\<close>

text \<open>
  C8, as stated, fails: a record that lacks \<^verbatim>\<open>NAME\<close> and \<^verbatim>\<open>DBA\<close> is written, with
  the empty string in their columns.
\<close>

theorem C8_missing_keys_written:
  "writerow output_fields
     ([(K ''STADDR'', Str ''8983 Potter Road''), (K ''STADDR2'', Str []),
       (K ''CITY'', Str ''Des Plaines''), (K ''STATE'', Str ''IL''), (K ''ZIP'', Str ''60016''),
       (K ''LAT_Y'', Flt 42), (K ''LONG_X'', Flt 87),
       (K ''MATCH_ADDR'', Str ''8983 Potter Rd, Des Plaines, IL 60016, USA'')] :: nat dict)
   = Inr [Str [], Str [], Str ''8983 Potter Road'', Str [], Str ''Des Plaines'', Str ''IL'',
          Str ''60016'', Str ''8983 Potter Rd, Des Plaines, IL 60016, USA'', Flt 42, Flt 87]"
  by code_simp

text \<open>
  C8, amended. The write step fails, with \<^verbatim>\<open>ValueError\<close>, exactly when the record has a
  key that is not one of the ten output columns. Otherwise it writes one line of ten
  cells in the fixed column order, each the record's value for the column, or the empty
  string where the record has no such key.
\<close>

theorem C8_write_step:
  "writerow output_fields row =
     (if \<exists>k \<in> fst ` set row. k \<notin> K ` set output_fields then Inl ValueError
      else Inr [get_default row (K ''NAME'') (Str []), get_default row (K ''DBA'') (Str []),
                get_default row (K ''STADDR'') (Str []), get_default row (K ''STADDR2'') (Str []),
                get_default row (K ''CITY'') (Str []), get_default row (K ''STATE'') (Str []),
                get_default row (K ''ZIP'') (Str []), get_default row (K ''MATCH_ADDR'') (Str []),
                get_default row (K ''LAT_Y'') (Str []), get_default row (K ''LONG_X'') (Str [])])"
proof -
  have "map (\<lambda>key. get_default row (K key) (Str [])) output_fields =
      [get_default row (K ''NAME'') (Str []), get_default row (K ''DBA'') (Str []),
       get_default row (K ''STADDR'') (Str []), get_default row (K ''STADDR2'') (Str []),
       get_default row (K ''CITY'') (Str []), get_default row (K ''STATE'') (Str []),
       get_default row (K ''ZIP'') (Str []), get_default row (K ''MATCH_ADDR'') (Str []),
       get_default row (K ''LAT_Y'') (Str []), get_default row (K ''LONG_X'') (Str [])]"
    by (simp add: output_fields_def)
  moreover have "(\<exists>k \<in> fst ` set row. k \<notin> K ` set output_fields)
      \<longleftrightarrow> \<not> fst ` set row \<subseteq> K ` set output_fields" by blast
  ultimately show ?thesis by (simp only: writerow_def dict_to_list_eq if_not_P if_P split: if_split) auto
qed

text \<open>A record with the extra key \<^verbatim>\<open>PHONE\<close> is refused.\<close>

theorem C8_extra_key_refused:
  "writerow output_fields ([(K ''NAME'', Str ''Acme''), (K ''PHONE'', Str ''555 0100'')] :: nat dict)
     = Inl ValueError"
  using C8_write_step [of "[(K ''NAME'', Str ''Acme''), (K ''PHONE'', Str ''555 0100'')] :: nat dict"]
  by (simp add: output_fields_def)

section \<open>Enrichment of a row\<close>

text \<open>
  C9. When the loop body succeeds on a row, it writes one line: the row's values for
  \<^verbatim>\<open>NAME, DBA, STADDR, STADDR2, CITY, STATE, ZIP\<close> as they were read, followed by the
  matched address, the latitude and the longitude of the location the provider returned
  for the row's query. Nothing else is added.
\<close>

theorem C9_row_enrichment:
  assumes "body g i ln row = (None, evs)"
    and "addr row = Inr a" and "g i a = Found loc"
    and "map_of row (K ''NAME'') = Some name" and "map_of row (K ''DBA'') = Some dba"
    and "map_of row (K ''STADDR'') = Some staddr" and "map_of row (K ''STADDR2'') = Some staddr2"
    and "map_of row (K ''CITY'') = Some city" and "map_of row (K ''STATE'') = Some state"
    and "map_of row (K ''ZIP'') = Some zipcode"
  shows "written evs =
     [[name, dba, staddr, staddr2, city, state, zipcode,
       Str (address loc), Flt (latitude loc), Flt (longitude loc)]]"
  using assms(1)
proof (cases rule: body_cases)
  case (success a' loc' cells)
  with assms(2,3) have "a' = a" "loc' = loc" by simp_all
  with success(3) have "writerow output_fields (enriched loc row) = Inr cells" by simp
  from enriched_cells [OF this] assms(4-) success(5) show ?thesis
    by (simp add: get_default_def)
qed simp_all

text \<open>The Potter Road row, found at (42, 87).\<close>

theorem C9_potter_road:
  "written (snd (body finds_all 0 2 (row_dict lenders_header potter_road)))
     = [[Str ''Acme'', Str ''Acme Loans'', Str ''8983 Potter Road'', Str [], Str ''Des Plaines'',
         Str ''IL'', Str ''60016'', Str ''8983 Potter Road, Des Plaines, IL 60016'',
         Flt 42, Flt 87]]"
proof -
  have b: "body finds_all 0 2 (row_dict lenders_header potter_road)
      = (None, snd (body finds_all 0 2 (row_dict lenders_header potter_road)))"
    by code_simp
  have a: "addr (row_dict lenders_header potter_road :: nat dict)
      = Inr ''8983 Potter Road, Des Plaines, IL 60016''" by code_simp
  have g: "finds_all 0 ''8983 Potter Road, Des Plaines, IL 60016''
      = Found \<lparr>address = ''8983 Potter Road, Des Plaines, IL 60016'', latitude = 42, longitude = 87\<rparr>"
    by (simp add: finds_all_def)
  have r: "map_of (row_dict lenders_header potter_road :: nat dict) (K ''NAME'') = Some (Str ''Acme'')"
    "map_of (row_dict lenders_header potter_road :: nat dict) (K ''DBA'') = Some (Str ''Acme Loans'')"
    "map_of (row_dict lenders_header potter_road :: nat dict) (K ''STADDR'') = Some (Str ''8983 Potter Road'')"
    "map_of (row_dict lenders_header potter_road :: nat dict) (K ''STADDR2'') = Some (Str [])"
    "map_of (row_dict lenders_header potter_road :: nat dict) (K ''CITY'') = Some (Str ''Des Plaines'')"
    "map_of (row_dict lenders_header potter_road :: nat dict) (K ''STATE'') = Some (Str ''IL'')"
    "map_of (row_dict lenders_header potter_road :: nat dict) (K ''ZIP'') = Some (Str ''60016'')"
    by code_simp+
  from C9_row_enrichment [OF b a g r] show ?thesis by simp
qed

section \<open>What a failed call leaves behind\<close>





section \<open>The row cap\<close>

text \<open>
  C3, as stated, fails: the cap is on the reader's line number, not on the number of
  rows. With a blank line after the header and eight data rows, every call succeeding,
  only four data rows are written, not \<open>min 5 8\<close>: the blank line is skipped by the reader
  but counted in \<^verbatim>\<open>line_num\<close>.
\<close>

theorem C3_blank_line_counts:
  "length (tl (written (fst (snd (notebook
      (input_only ((1, lenders_header) # (1, []) # replicate 8 (1, potter_road))) finds_all)))))
   = 4
   \<and> fst (notebook
      (input_only ((1, lenders_header) # (1, []) # replicate 8 (1, potter_road))) finds_all)
   = None"
  by code_simp

text \<open>
  With exactly five data rows all five are written and the loop ends with the input: the
  \<^verbatim>\<open>else\<close> branch is never reached and no completion message is printed.
\<close>

lemma five_rows_no_completion_message:
  "length (tl (written (fst (snd (notebook (lenders 5) finds_all))))) = 5
   \<and> ''All done!'' \<notin> set (printed (fst (snd (notebook (lenders 5) finds_all))))"
  by code_simp

text \<open>
  C3, amended. Take an input file whose header is on one line, names the five address
  columns and no column other than the ten output columns, and whose data rows each
  occupy one line and have as many fields as the header (so there is no blank line);
  let the output file be creatable and every provider call succeed. Then the run ends
  without error, the number of data rows written is \<open>min 5 n\<close> for \<open>n\<close> data rows, exactly
  that many provider calls are made (no row after the fifth is geocoded), and the
  completion message is printed exactly when the file has more than five data rows.
\<close>

theorem C3_row_cap:
  fixes g :: "'f geocoder"
  assumes "contents fs ''payday_lenders.csv'' = Some ((1, fns) # rows)"
    and "creatable fs ''payday_geocoded.csv''"
    and "set [''STADDR'', ''STADDR2'', ''CITY'', ''STATE'', ''ZIP''] \<subseteq> set fns"
    and "set fns \<subseteq> set output_fields"
    and "\<forall>(n, cells) \<in> set rows. n = 1 \<and> length cells = length fns"
    and "\<forall>i q. \<exists>loc. g i q = Found loc"
    and "notebook fs g = (r, evs, d)"
  shows "r = None
    \<and> length (tl (written evs)) = min 5 (length rows)
    \<and> length (queries evs) = min 5 (length rows)
    \<and> (''All done!'' \<in> set (printed evs) \<longleftrightarrow> 5 < length rows)"
proof -
  have plain: "r' = None \<and> length (written evs') = min 5 (length rows)
       \<and> length (queries evs') = min 5 (length rows)
       \<and> (''All done!'' \<in> set (printed evs') \<longleftrightarrow> 5 < length rows)"
    if "loop g 0 (DictReader ((1, fns) # rows)) = (r', evs', d')" for r' evs' d'
    using loop_plain [OF assms(3,4,6,5), of 0 1 r' evs' d'] that
    by (simp add: loop_DictReader)
  from assms(7) show ?thesis
  proof (cases rule: notebook_cases)
    case no_input
    with assms(1) show ?thesis by simp
  next
    case (no_output f)
    with assms(2) show ?thesis by simp
  next
    case (failed f e evs' d')
    with assms(1) plain [of "Some e" evs' d'] show ?thesis by simp
  next
    case (finished f evs' d')
    with assms(1) plain [of None evs' d'] show ?thesis
      by (simp add: written_append queries_append printed_append)
  qed
qed

text \<open>Eight data rows: five are written, five calls are made, the message is printed.\<close>

theorem C3_eight_rows:
  "fst (notebook (lenders 8) finds_all) = None
   \<and> length (tl (written (fst (snd (notebook (lenders 8) finds_all))))) = 5
   \<and> length (queries (fst (snd (notebook (lenders 8) finds_all)))) = 5
   \<and> ''All done!'' \<in> set (printed (fst (snd (notebook (lenders 8) finds_all))))"
proof -
  have 1: "contents (lenders 8) ''payday_lenders.csv''
      = Some ((1, lenders_header) # replicate 8 (1, potter_road))"
    by (simp add: lenders_def input_only_def)
  have 2: "creatable (lenders 8) ''payday_geocoded.csv''"
    by (simp add: lenders_def input_only_def)
  have 3: "set [''STADDR'', ''STADDR2'', ''CITY'', ''STATE'', ''ZIP''] \<subseteq> set lenders_header"
    by (simp add: lenders_header_def)
  have 4: "set lenders_header \<subseteq> set output_fields"
    by (simp add: lenders_header_def output_fields_def)
  have 5: "\<forall>(n, cells) \<in> set (replicate 8 (1, potter_road)).
      n = 1 \<and> length cells = length lenders_header"
    by (simp add: potter_road_def lenders_header_def)
  have 6: "\<forall>i q. \<exists>loc. finds_all i q = Found loc" by (simp add: finds_all_def)
  from C3_row_cap [OF 1 2 3 4 5 6 run_triple] show ?thesis by simp
qed

section \<open>Rows of the wrong length, and a missing input file\<close>

lemma fold_set_none:
  "map_of (fold (\<lambda>key. setitem (K key) PyNone) ks d) (K k)
     = (if k \<in> set ks then Some PyNone else map_of d (K k))"
  by (induction ks arbitrary: d) (simp_all add: map_of_setitem)

text \<open>
  C7, as stated, fails: a data row with fewer fields than the header raises nothing. Here
  the row lacks the last column, \<^verbatim>\<open>DBA\<close>; it is read, geocoded and written, with
  \<^verbatim>\<open>None\<close> in that column, and the run ends normally.
\<close>

theorem C7_short_row_accepted:
  "fst (notebook (input_only [(1, address_first_header), (1, short_row)]) finds_all) = None
   \<and> written (fst (snd (notebook (input_only [(1, address_first_header), (1, short_row)]) finds_all)))
     = [[Str ''NAME'', Str ''DBA'', Str ''STADDR'', Str ''STADDR2'', Str ''CITY'', Str ''STATE'',
         Str ''ZIP'', Str ''MATCH_ADDR'', Str ''LAT_Y'', Str ''LONG_X''],
        [Str ''Acme'', PyNone, Str ''8983 Potter Road'', Str [], Str ''Des Plaines'', Str ''IL'',
         Str ''60016'', Str ''8983 Potter Road, Des Plaines, IL 60016'', Flt 42, Flt 87]]
   \<and> length short_row < length address_first_header"
  by code_simp

text \<open>
  C7, amended. The reader does not compare field counts: for every non-blank data row
  \<^verbatim>\<open>next\<close> returns a record and raises nothing. A row shorter than the header gets
  \<^verbatim>\<open>None\<close> for each column it lacks, and a longer one keeps its surplus fields as a list
  under the key \<^verbatim>\<open>None\<close>. When the input path is missing, \<^verbatim>\<open>open\<close> raises \<^verbatim>\<open>IOError\<close>
  and the run ends before anything is written.
\<close>

theorem C7_reader_keeps_any_row:
  fixes g :: "'f geocoder"
  assumes "cells \<noteq> []"
  shows "(\<exists>row :: 'f dict.
            dict_next (reading fns ((n, cells) # rest) L) = (Inr row, reading fns rest (L + n))
            \<and> (\<forall>k \<in> set (drop (length cells) fns). map_of row (K k) = Some PyNone)
            \<and> (length fns < length cells
                 \<longrightarrow> map_of row KNone = Some (StrList (drop (length fns) cells))))
    \<and> (contents fs ''payday_lenders.csv'' = None \<longrightarrow> notebook fs g = (Some IOError, [], None))"
proof -
  have "dict_next (reading fns ((n, cells) # rest) L)
      = (Inr (row_dict fns cells :: 'f dict), reading fns rest (L + n))"
    by (simp add: dict_next_def next_row_reading [OF assms])
  moreover have "\<forall>k \<in> set (drop (length cells) fns).
      map_of (row_dict fns cells :: 'f dict) (K k) = Some PyNone"
    by (auto simp: row_dict_def Let_def fold_set_none)
  moreover have "length fns < length cells
      \<longrightarrow> map_of (row_dict fns cells :: 'f dict) KNone = Some (StrList (drop (length fns) cells))"
    by (simp add: row_dict_def Let_def map_of_setitem)
  moreover have "contents fs ''payday_lenders.csv'' = None
      \<longrightarrow> notebook fs g = (Some IOError, [], None)"
    by (simp add: notebook_def open_rb_def)
  ultimately show ?thesis by blast
qed

text \<open>A row with an eighth field: the field is kept under the key \<^verbatim>\<open>None\<close>.\<close>

theorem C7_long_row_kept:
  "\<exists>row :: nat dict.
     dict_next (reading lenders_header [(1, potter_road @ [''847 555 0100''])] 1)
       = (Inr row, reading lenders_header [] 2)
     \<and> map_of row KNone = Some (StrList [''847 555 0100''])"
proof -
  have ne: "potter_road @ [''847 555 0100''] \<noteq> []" by simp
  note th = C7_reader_keeps_any_row [OF ne, of lenders_header 1 "[]" 1 "lenders 0" finds_all]
  then obtain row :: "nat dict" where
    dn: "dict_next (reading lenders_header [(1, potter_road @ [''847 555 0100''])] 1)
       = (Inr row, reading lenders_header [] (1 + 1))"
    and long: "length lenders_header < length (potter_road @ [''847 555 0100''])
       \<longrightarrow> map_of row KNone
           = Some (StrList (drop (length lenders_header) (potter_road @ [''847 555 0100''])))"
    by blast
  from long have "map_of row KNone = Some (StrList [''847 555 0100''])"
    by (simp add: potter_road_def lenders_header_def)
  moreover from dn have "dict_next (reading lenders_header [(1, potter_road @ [''847 555 0100''])] 1)
       = (Inr row, reading lenders_header [] 2)"
    by (simp only: one_add_one)
  ultimately show ?thesis by blast
qed

end
